theory Spec2Isabelle
  imports Complex_Main
begin

section \<open>The lane analyser of CarApp/Analyser.py\<close>

text \<open>
  The module is Python 2 (it uses the \<^verbatim>\<open>print\<close> statement and has no
  \<^verbatim>\<open>from __future__ import division\<close>), so \<^verbatim>\<open>/\<close> between two integers,
  Python ints or numpy int32 scalars alike, is floor division: Isabelle's \<open>div\<close> on
  \<open>int\<close>. Segment coordinates are pixel positions inside a frame, far from the int32
  range, so they are modelled as \<open>int\<close>. The floats of \<^verbatim>\<open>__draw_lines\<close> are IEEE
  doubles, modelled with their rounding (type \<open>fp\<close>). The clock is read as a real
  number of seconds; what its readings being doubles implies is a hypothesis where it
  matters (\<open>clock_reading\<close>).

  The calls into cv2 and numpy are parameters of the model (record \<open>vision\<close>).
\<close>

subsection \<open>Data\<close>

text \<open>One row \<^verbatim>\<open>line[0] = [x1, y1, x2, y2]\<close> of the array cv2.HoughLinesP returns.\<close>

type_synonym segment = "int \<times> int \<times> int \<times> int"

text \<open>A decoded frame: \<^verbatim>\<open>shape = (height, width, channels)\<close> and the pixel buffer.\<close>

record frame =
  height :: int
  width :: int
  channels :: int
  pixel_buf :: "nat list"

datatype draw_op = Line "int \<times> int" "int \<times> int" | Circle "int \<times> int" int

text \<open>
  What \<^verbatim>\<open>self.__current_frame\<close> holds when it is encoded: the frame as decoded, or
  the result of \<^verbatim>\<open>__lane_assist\<close>: the source frame blended (weights 0.8, 1, 0) with
  the image of the lane lines drawn, and the marker circle drawn on top.
\<close>

datatype image = Decoded frame | Annotated frame "draw_op list" draw_op

text \<open>
  What is put on \<^verbatim>\<open>analysed_frame_queue\<close>: the numpy array of the encoder's bytes
  (line 69), or its \<^verbatim>\<open>tostring()\<close> (line 76).
\<close>

datatype payload = NdArray "nat list" | Str "nat list"

fun payload_bytes :: "payload \<Rightarrow> nat list" where
  "payload_bytes (NdArray bs) = bs"
| "payload_bytes (Str bs) = bs"

datatype py_error = OverflowError | ValueError | CvError

text \<open>
  The library calls: \<^verbatim>\<open>cv2.imdecode\<close> (None when the bytes are no image),
  \<^verbatim>\<open>cv2.imencode(ext, img, params)\<close>, the chain grayscale, blur, Canny, region mask
  and \<^verbatim>\<open>cv2.HoughLinesP\<close> of \<^verbatim>\<open>__lane_assist\<close> (None when no line is found), and
  \<^verbatim>\<open>np.polyfit(xs, ys, 1)\<close>.
\<close>

record vision =
  imdecode :: "nat list \<Rightarrow> frame option"
  imencode :: "string \<Rightarrow> image \<Rightarrow> int list \<Rightarrow> bool \<times> nat list"
  hough_lines_p :: "frame \<Rightarrow> segment list option"
  polyfit :: "int list \<Rightarrow> int list \<Rightarrow> real \<times> real"

text \<open>
  The module globals \<^verbatim>\<open>right_x1_coord\<close>, \<^verbatim>\<open>left_x1_coord\<close>, \<^verbatim>\<open>y1_coord\<close>, the
  attributes of the Analyser object, and the two queues the worker writes.
\<close>

record state =
  right_x1_coord :: int
  left_x1_coord :: int
  y1_coord :: int
  current_frame :: "image option"
  command_timer :: real
  commands_queue :: "string list"
  analysed_frame_queue :: "payload list"

definition IMWRITE_JPEG_QUALITY :: int where
  "IMWRITE_JPEG_QUALITY = 1"

definition encode_parameter :: "int list" where
  "encode_parameter = [IMWRITE_JPEG_QUALITY, 60]"

definition init_state :: state where
  "init_state = \<lparr>right_x1_coord = 1, left_x1_coord = 1, y1_coord = 1,
     current_frame = None, command_timer = 0, commands_queue = [],
     analysed_frame_queue = []\<rparr>"

definition slope_threshold :: real where
  "slope_threshold = 5 / 10"

subsection \<open>\<^verbatim>\<open>__draw_lines\<close>: slopes, filter and split (lines 118 to 150)\<close>

text \<open>
  \<^verbatim>\<open>(y2 - y1) / (x2 - x1)\<close> divides two numpy int32 scalars: floor division. The
  result and the float 999. are both read as numbers in the comparisons that follow.
\<close>

fun slope :: "segment \<Rightarrow> real" where
  "slope (x1, y1, x2, y2) =
     (if x2 - x1 = 0 then 999 else of_int ((y2 - y1) div (x2 - x1)))"

fun filter_slopes :: "segment list \<Rightarrow> real list \<times> segment list" where
  "filter_slopes [] = ([], [])"
| "filter_slopes (l # ls) =
     (let (slopes, new_lines) = filter_slopes ls
      in if \<bar>slope l\<bar> > slope_threshold then (slope l # slopes, l # new_lines)
         else (slopes, new_lines))"

text \<open>The second loop, over \<^verbatim>\<open>enumerate(lines)\<close> with \<^verbatim>\<open>slopes[i]\<close>.\<close>

fun split_lines :: "int \<Rightarrow> (real \<times> segment) list \<Rightarrow> segment list \<times> segment list" where
  "split_lines img_x_center [] = ([], [])"
| "split_lines img_x_center ((s, (x1, y1, x2, y2)) # rest) =
     (let (right_lines, left_lines) = split_lines img_x_center rest
      in if s > 0 \<and> x1 > img_x_center \<and> x2 > img_x_center
           then ((x1, y1, x2, y2) # right_lines, left_lines)
         else if s < 0 \<and> x1 < img_x_center \<and> x2 < img_x_center
           then (right_lines, (x1, y1, x2, y2) # left_lines)
         else (right_lines, left_lines))"

definition classify_lines :: "int \<Rightarrow> segment list \<Rightarrow> segment list \<times> segment list" where
  "classify_lines w lines =
     (let (slopes, new_lines) = filter_slopes lines
      in split_lines (w div 2) (zip slopes new_lines))"

text \<open>What the two loops do to one segment.\<close>

datatype side = LEFT | RIGHT | DISCARDED

definition classify :: "int \<Rightarrow> segment \<Rightarrow> side" where
  "classify w l =
     (case classify_lines w [l] of
        ([], []) \<Rightarrow> DISCARDED
      | (_ # _, _) \<Rightarrow> RIGHT
      | ([], _ # _) \<Rightarrow> LEFT)"

subsection \<open>\<^verbatim>\<open>__draw_lines\<close>: the fit of one side (lines 152 to 189)\<close>

fun lines_xy :: "segment list \<Rightarrow> int list \<times> int list" where
  "lines_xy [] = ([], [])"
| "lines_xy ((x1, y1, x2, y2) # rest) =
     (let (xs, ys) = lines_xy rest in (x1 # x2 # xs, y1 # y2 # ys))"

text \<open>
  The coefficients, the draw flag of the side, and the arguments of every call of
  \<^verbatim>\<open>np.polyfit\<close> made for it.
\<close>

record lane_fit =
  fit_m :: real
  fit_b :: real
  draw :: bool
  polyfit_calls :: "(int list \<times> int list) list"

definition fit_side :: "(int list \<Rightarrow> int list \<Rightarrow> real \<times> real) \<Rightarrow> segment list \<Rightarrow> lane_fit" where
  "fit_side pf lines =
     (let (lines_x, lines_y) = lines_xy lines
      in if length lines_x > 0
         then (let (m, b) = pf lines_x lines_y
               in \<lparr>fit_m = m, fit_b = b, draw = True, polyfit_calls = [(lines_x, lines_y)]\<rparr>)
         else \<lparr>fit_m = 1, fit_b = 1, draw = False, polyfit_calls = []\<rparr>)"

subsection \<open>Double precision\<close>

text \<open>
  A Python float and a numpy float64 are IEEE doubles: 53 significant bits, exponents
  from -1022 to 1023, subnormal numbers below. An operation returns the exact result
  rounded to the nearest double, to the even one on a tie, and an infinity when the
  rounded result is beyond the largest double. A finite double is modelled by its real
  value; the sign of a zero is not kept (it decides only the sign of an infinity got by
  dividing by that zero, and \<^verbatim>\<open>int\<close> raises the same error on both infinities).
\<close>

datatype fp = Finite real | PInf | NInf | NaN

text \<open>The number of binary digits of a natural number.\<close>

fun bits :: "nat \<Rightarrow> nat" where
  "bits n = (if n = 0 then 0 else Suc (bits (n div 2)))"

declare bits.simps [simp del]

definition pow2 :: "int \<Rightarrow> real" where
  "pow2 e = (if 0 \<le> e then 2 ^ nat e else 1 / 2 ^ nat (- e))"

text \<open>For \<open>a > 0\<close>, the \<open>e\<close> with \<open>2 ^ e \<le> a < 2 ^ (e + 1)\<close>.\<close>

definition exponent :: "real \<Rightarrow> int" where
  "exponent a =
     (if 1 \<le> a then int (bits (nat \<lfloor>a\<rfloor>)) - 1
      else (let k = int (bits (nat \<lfloor>1 / a\<rfloor>)) - 1
            in if a * pow2 k = 1 then - k else - k - 1))"

definition round_half_even :: "real \<Rightarrow> int" where
  "round_half_even q =
     (let f = \<lfloor>q\<rfloor>; d = q - of_int f
      in if d < 1 / 2 then f else if d > 1 / 2 then f + 1
         else if even f then f else f + 1)"

text \<open>The double nearest to a real number.\<close>

definition rnd :: "real \<Rightarrow> fp" where
  "rnd x =
     (if x = 0 then Finite 0
      else (let ulp = pow2 (max (exponent \<bar>x\<bar>) (- 1022) - 52);
                v = of_int (round_half_even (x / ulp)) * ulp
            in if pow2 1024 \<le> v then PInf
               else if v \<le> - pow2 1024 then NInf
               else Finite v))"

fun fsub :: "fp \<Rightarrow> fp \<Rightarrow> fp" where
  "fsub NaN b = NaN"
| "fsub a NaN = NaN"
| "fsub (Finite x) (Finite y) = rnd (x - y)"
| "fsub PInf PInf = NaN"
| "fsub NInf NInf = NaN"
| "fsub PInf b = PInf"
| "fsub NInf b = NInf"
| "fsub (Finite x) PInf = NInf"
| "fsub (Finite x) NInf = PInf"

fun fmul :: "fp \<Rightarrow> fp \<Rightarrow> fp" where
  "fmul NaN b = NaN"
| "fmul a NaN = NaN"
| "fmul (Finite x) (Finite y) = rnd (x * y)"
| "fmul (Finite x) PInf = (if x = 0 then NaN else if 0 < x then PInf else NInf)"
| "fmul (Finite x) NInf = (if x = 0 then NaN else if 0 < x then NInf else PInf)"
| "fmul PInf (Finite y) = (if y = 0 then NaN else if 0 < y then PInf else NInf)"
| "fmul NInf (Finite y) = (if y = 0 then NaN else if 0 < y then NInf else PInf)"
| "fmul PInf PInf = PInf"
| "fmul NInf NInf = PInf"
| "fmul PInf NInf = NInf"
| "fmul NInf PInf = NInf"

text \<open>
  numpy's division: dividing by zero gives nan (0 / 0) or an infinity, with a warning and
  no exception.
\<close>

fun fdiv :: "fp \<Rightarrow> fp \<Rightarrow> fp" where
  "fdiv NaN b = NaN"
| "fdiv a NaN = NaN"
| "fdiv (Finite x) (Finite y) =
     (if y = 0 then (if x = 0 then NaN else if 0 < x then PInf else NInf)
      else rnd (x / y))"
| "fdiv (Finite x) b = Finite 0"
| "fdiv PInf (Finite y) = (if 0 \<le> y then PInf else NInf)"
| "fdiv NInf (Finite y) = (if 0 \<le> y then NInf else PInf)"
| "fdiv a b = NaN"

text \<open>The comparison \<^verbatim>\<open>>\<close> of two doubles.\<close>

fun fgt :: "fp \<Rightarrow> fp \<Rightarrow> bool" where
  "fgt NaN b = False"
| "fgt a NaN = False"
| "fgt (Finite x) (Finite y) = (y < x)"
| "fgt PInf PInf = False"
| "fgt PInf b = True"
| "fgt a PInf = False"
| "fgt NInf b = False"
| "fgt (Finite x) NInf = True"

text \<open>The double of a Python int.\<close>

definition float_of_int :: "int \<Rightarrow> fp" where
  "float_of_int n = rnd (of_int n)"

text \<open>The literal \<^verbatim>\<open>0.97\<close> of line 21 denotes the double nearest to 97 / 100.\<close>

definition trap_height :: fp where
  "trap_height = rnd (97 / 100)"

subsection \<open>\<^verbatim>\<open>__draw_lines\<close>: end points (lines 191 to 208)\<close>

text \<open>Python's \<^verbatim>\<open>int\<close> of a float drops the fraction: it truncates toward zero.\<close>

definition py_int :: "real \<Rightarrow> int" where
  "py_int r = (if 0 \<le> r then \<lfloor>r\<rfloor> else \<lceil>r\<rceil>)"

text \<open>On an infinity it raises OverflowError, on nan ValueError.\<close>

fun int_of_float :: "fp \<Rightarrow> py_error + int" where
  "int_of_float (Finite v) = Inr (py_int v)"
| "int_of_float PInf = Inl OverflowError"
| "int_of_float NInf = Inl OverflowError"
| "int_of_float NaN = Inl ValueError"

text \<open>
  \<^verbatim>\<open>(y - b) / m\<close> for a row \<open>y\<close> that is a float, with the coefficients \<open>m\<close> and
  \<open>b\<close> of a side. The coefficients np.polyfit returns are float64; the defaults 1 and 1
  are Python ints, and become the doubles 1.0 here.
\<close>

definition end_x :: "lane_fit \<Rightarrow> fp \<Rightarrow> fp" where
  "end_x r y = fdiv (fsub y (Finite (fit_b r))) (Finite (fit_m r))"

text \<open>
  \<^verbatim>\<open>int((y1 - b) / m)\<close> for the row \<open>y1 = h\<close>, a Python int: with the coefficients
  of np.polyfit the int becomes a double; with the defaults (the draw flag is False) the
  whole expression is integer arithmetic.
\<close>

definition bottom_x :: "int \<Rightarrow> lane_fit \<Rightarrow> py_error + int" where
  "bottom_x h r =
     (if draw r then int_of_float (end_x r (float_of_int h)) else Inr ((h - 1) div 1))"

record end_points =
  ep_y1 :: int
  ep_y2 :: int
  right_x1 :: int
  right_x2 :: int
  left_x1 :: int
  left_x2 :: int

text \<open>
  The quotients of lines 196 to 200 raise nothing; the conversions of lines 203 to 208
  raise in their order: \<open>y2\<close>, then the four \<open>x\<close>.
\<close>

definition find_end_points :: "int \<Rightarrow> lane_fit \<Rightarrow> lane_fit \<Rightarrow> py_error + end_points" where
  "find_end_points h r l =
     (let y2 = fmul (float_of_int h) (fsub (Finite 1) trap_height)
      in (case int_of_float y2 of Inl e \<Rightarrow> Inl e | Inr y2i \<Rightarrow>
         (case bottom_x h r of Inl e \<Rightarrow> Inl e | Inr rx1 \<Rightarrow>
         (case int_of_float (end_x r y2) of Inl e \<Rightarrow> Inl e | Inr rx2 \<Rightarrow>
         (case bottom_x h l of Inl e \<Rightarrow> Inl e | Inr lx1 \<Rightarrow>
         (case int_of_float (end_x l y2) of Inl e \<Rightarrow> Inl e | Inr lx2 \<Rightarrow>
         Inr \<lparr>ep_y1 = h, ep_y2 = y2i, right_x1 = rx1, right_x2 = rx2,
              left_x1 = lx1, left_x2 = lx2\<rparr>))))))"

subsection \<open>\<^verbatim>\<open>__draw_lines\<close> as a whole\<close>

text \<open>
  \<^verbatim>\<open>cv2.line\<close> takes its points as C ints and raises on a Python int outside their
  range. \<open>cv2_line flag p q\<close> is the guarded call of lines 211 to 215: the line drawn,
  none when the flag is False, or the exception.
\<close>

definition c_int :: "int \<Rightarrow> bool" where
  "c_int x \<longleftrightarrow> - (2 ^ 31) \<le> x \<and> x < 2 ^ 31"

definition cv2_line :: "bool \<Rightarrow> int \<times> int \<Rightarrow> int \<times> int \<Rightarrow> py_error + draw_op list" where
  "cv2_line flag p q =
     (if \<not> flag then Inr []
      else if c_int (fst p) \<and> c_int (snd p) \<and> c_int (fst q) \<and> c_int (snd q)
        then Inr [Line p q]
      else Inl OverflowError)"

text \<open>
  The result: the state with the three globals written, the lines drawn on the image,
  and the calls of the regression; or the exception, raised before the globals are
  written. \<open>h\<close> and \<open>w\<close> are \<^verbatim>\<open>img.shape[0]\<close> and \<^verbatim>\<open>img.shape[1]\<close>.
\<close>

record drawn =
  new_state :: state
  lines_drawn :: "draw_op list"
  regressions :: "(int list \<times> int list) list"

definition draw_lines ::
  "(int list \<Rightarrow> int list \<Rightarrow> real \<times> real) \<Rightarrow> int \<Rightarrow> int \<Rightarrow> segment list option \<Rightarrow> state
     \<Rightarrow> py_error + drawn" where
  "draw_lines pf h w lines st =
     (case lines of
        None \<Rightarrow> Inr \<lparr>new_state = st, lines_drawn = [], regressions = []\<rparr>
      | Some ls \<Rightarrow>
          if length ls = 0 then Inr \<lparr>new_state = st, lines_drawn = [], regressions = []\<rparr>
          else
            (let (right_lines, left_lines) = classify_lines w ls;
                 r = fit_side pf right_lines;
                 l = fit_side pf left_lines
             in (case find_end_points h r l of Inl e \<Rightarrow> Inl e | Inr ep \<Rightarrow>
                (case cv2_line (draw r) (right_x1 ep, ep_y1 ep) (right_x2 ep, ep_y2 ep) of
                   Inl e \<Rightarrow> Inl e | Inr right_line \<Rightarrow>
                (case cv2_line (draw l) (left_x1 ep, ep_y1 ep) (left_x2 ep, ep_y2 ep) of
                   Inl e \<Rightarrow> Inl e | Inr left_line \<Rightarrow>
                Inr \<lparr>new_state = st\<lparr>right_x1_coord := right_x1 ep, y1_coord := ep_y1 ep,
                                      left_x1_coord := left_x1 ep\<rparr>,
                     lines_drawn = right_line @ left_line,
                     regressions = polyfit_calls r @ polyfit_calls l\<rparr>)))))"

subsection \<open>\<^verbatim>\<open>__lane_assist\<close> (lines 241 to 285)\<close>

text \<open>Lines 274 to 282: the token put on the command queue.\<close>

definition steer_command :: "int \<Rightarrow> int \<Rightarrow> string" where
  "steer_command w final_x =
     (if final_x < w div 2 - 20 \<or> final_x > w div 2 + 20
      then (if final_x < w div 2 then ''4/'' else ''5/'')
      else ''1/1/'')"

text \<open>Line 266, read after \<^verbatim>\<open>__draw_lines\<close> has run.\<close>

definition final_x :: "state \<Rightarrow> int" where
  "final_x st = (right_x1_coord st + left_x1_coord st) div 2"

text \<open>
  \<open>t_check\<close> is the clock read in the test of line 272 and \<open>t_reset\<close> the clock read
  in line 283. The result is the annotated image and the new state.
\<close>

definition lane_assist :: "vision \<Rightarrow> frame \<Rightarrow> real \<Rightarrow> real \<Rightarrow> state \<Rightarrow> py_error + (image \<times> state)" where
  "lane_assist vis f t_check t_reset st =
     (case draw_lines (polyfit vis) (height f) (width f) (hough_lines_p vis f) st of
        Inl e \<Rightarrow> Inl e
      | Inr d \<Rightarrow>
          (let st1 = new_state d;
               img = Annotated f (lines_drawn d) (Circle (final_x st1, y1_coord st1) 50);
               st2 = (if t_check - command_timer st1 > 300 / 1000
                      then st1\<lparr>commands_queue :=
                                  commands_queue st1 @ [steer_command (width f) (final_x st1)],
                                command_timer := t_reset\<rparr>
                      else st1)
           in Inr (img, st2)))"

subsection \<open>\<^verbatim>\<open>analyse\<close>: the worker loop (lines 50 to 76)\<close>

text \<open>
  What one pass of the loop reads: the two thread flags, the bytes taken from the frame
  queue, and the clock.
\<close>

record iteration =
  is_running :: bool
  is_analysing :: bool
  string_data :: "nat list"
  now_check :: real
  now_reset :: real

datatype step_result = Continue state | Break state | Raise py_error state

fun state_of :: "step_result \<Rightarrow> state" where
  "state_of (Continue st) = st"
| "state_of (Break st) = st"
| "state_of (Raise e st) = st"

text \<open>
  The body of the loop after the test of \<^verbatim>\<open>is_running\<close>. cv2 raises when it is given
  None for an image.
\<close>

definition analyse_step :: "vision \<Rightarrow> state \<Rightarrow> iteration \<Rightarrow> step_result" where
  "analyse_step vis st it =
     (case imdecode vis (string_data it) of
        None \<Rightarrow> Raise CvError (st\<lparr>current_frame := None\<rparr>)
      | Some f \<Rightarrow>
          (let st0 = st\<lparr>current_frame := Some (Decoded f)\<rparr>
           in if is_analysing it then
                (case lane_assist vis f (now_check it) (now_reset it) st0 of
                   Inl e \<Rightarrow> Raise e st0
                 | Inr (img, st1) \<Rightarrow>
                     (let st2 = st1\<lparr>current_frame := Some img\<rparr>;
                          (result, encrypted_image) = imencode vis ''.jpg'' img encode_parameter
                      in if \<not> result then Break st2
                         else Continue (st2\<lparr>analysed_frame_queue :=
                                analysed_frame_queue st2 @ [NdArray encrypted_image]\<rparr>)))
              else
                (let (result, encrypted_image) =
                       imencode vis ''.jpg'' (Decoded f) encode_parameter
                 in if \<not> result then Break st0
                    else Continue (st0\<lparr>analysed_frame_queue :=
                           analysed_frame_queue st0 @ [Str encrypted_image]\<rparr>))))"

text \<open>
  The loop over the passes that happen; the worker waits on the frame queue when the list
  is used up.
\<close>

fun analyse_loop :: "vision \<Rightarrow> state \<Rightarrow> iteration list \<Rightarrow> step_result" where
  "analyse_loop vis st [] = Continue st"
| "analyse_loop vis st (it # its) =
     (if \<not> is_running it then Break st
      else (case analyse_step vis st it of
              Continue st' \<Rightarrow> analyse_loop vis st' its
            | Break st' \<Rightarrow> Break st'
            | Raise e st' \<Rightarrow> Raise e st'))"

text \<open>Line 55 sets the timer from the clock (\<open>t0\<close>) before the loop starts.\<close>

definition analyse :: "vision \<Rightarrow> state \<Rightarrow> real \<Rightarrow> iteration list \<Rightarrow> step_result" where
  "analyse vis st t0 its = analyse_loop vis (st\<lparr>command_timer := t0\<rparr>) its"

subsection \<open>Observing a run of the worker\<close>


text \<open>
  \<^verbatim>\<open>time.time()\<close> returns a double, and on a clock set later than 2 s after the start
  of 1970 it is at least 2: such a double is a multiple of \<open>2 ^ -51\<close>.
\<close>

definition clock_reading :: "real \<Rightarrow> bool" where
  "clock_reading t \<longleftrightarrow> 2 \<le> t \<and> of_int \<lfloor>t * 2 ^ 51\<rfloor> = t * 2 ^ 51"



text \<open>
  The payload holds what the encoder returned for some image, with extension .jpg and the
  parameter list of line 47, and the encoder reported success.
\<close>

definition encoded_q60 :: "vision \<Rightarrow> payload \<Rightarrow> bool" where
  "encoded_q60 vis p \<longleftrightarrow>
     (\<exists>img. imencode vis ''.jpg'' img [IMWRITE_JPEG_QUALITY, 60] = (True, payload_bytes p))"

subsection \<open>Sample collaborators and inputs\<close>

text \<open>
  A frame is sent as its width followed by its pixels; a frame without pixels has no line
  segments, every other frame has the segments \<open>lines\<close>; the regression returns
  \<open>mb\<close>; the encoder returns the two bytes a JPEG file starts with.
\<close>

definition sample_vision :: "segment list option \<Rightarrow> real \<times> real \<Rightarrow> vision" where
  "sample_vision lines mb =
     \<lparr>imdecode = (\<lambda>bs. case bs of [] \<Rightarrow> None
                    | w # px \<Rightarrow> Some \<lparr>height = 480, width = int w, channels = 3, pixel_buf = px\<rparr>),
      imencode = (\<lambda>ext img ps. (True, [255, 216])),
      hough_lines_p = (\<lambda>f. if pixel_buf f = [] then None else lines),
      polyfit = (\<lambda>xs ys. mb)\<rparr>"

definition pass :: "bool \<Rightarrow> nat list \<Rightarrow> real \<Rightarrow> real \<Rightarrow> iteration" where
  "pass analysing bs t t' =
     \<lparr>is_running = True, is_analysing = analysing, string_data = bs, now_check = t,
      now_reset = t'\<rparr>"

section \<open>Classification of segments\<close>

lemma filter_slopes_eq:
  "filter_slopes ls =
     (map slope (filter (\<lambda>l. \<bar>slope l\<bar> > slope_threshold) ls),
      filter (\<lambda>l. \<bar>slope l\<bar> > slope_threshold) ls)"
  by (induction ls) (simp_all add: Let_def)

lemma split_lines_eq:
  "split_lines c (zip (map slope ns) ns) =
     (filter (\<lambda>l. slope l > 0 \<and> fst l > c \<and> fst (snd (snd l)) > c) ns,
      filter (\<lambda>l. \<not> (slope l > 0 \<and> fst l > c \<and> fst (snd (snd l)) > c) \<and>
                   slope l < 0 \<and> fst l < c \<and> fst (snd (snd l)) < c) ns)"
proof (induction ns)
  case Nil
  show ?case by simp
next
  case (Cons l ns)
  obtain x1 y1 x2 y2 where l: "l = (x1, y1, x2, y2)" by (cases l) auto
  show ?case
    unfolding l using Cons by (simp del: slope.simps)
qed

lemma classify_lines_eq:
  "classify_lines w ls =
     (filter (\<lambda>l. \<bar>slope l\<bar> > slope_threshold \<and> slope l > 0 \<and>
                   fst l > w div 2 \<and> fst (snd (snd l)) > w div 2) ls,
      filter (\<lambda>l. \<bar>slope l\<bar> > slope_threshold \<and>
                   \<not> (slope l > 0 \<and> fst l > w div 2 \<and> fst (snd (snd l)) > w div 2) \<and>
                   slope l < 0 \<and> fst l < w div 2 \<and> fst (snd (snd l)) < w div 2) ls)"
  by (simp add: classify_lines_def filter_slopes_eq split_lines_eq conj_commute
        del: slope.simps)

text \<open>
  The rule one segment is classified by, with \<open>slope\<close> the floor of the quotient and
  the centre \<open>w div 2\<close>.
\<close>

lemma classify_eq:
  "classify w l =
     (if \<bar>slope l\<bar> > slope_threshold \<and> slope l > 0 \<and>
         fst l > w div 2 \<and> fst (snd (snd l)) > w div 2 then RIGHT
      else if \<bar>slope l\<bar> > slope_threshold \<and> slope l < 0 \<and>
         fst l < w div 2 \<and> fst (snd (snd l)) < w div 2 then LEFT
      else DISCARDED)"
  unfolding classify_def classify_lines_eq by (auto simp del: slope.simps)

text \<open>The two lists the loops build are the segments of each class, in their order.\<close>

lemma classify_lines_filter:
  "classify_lines w ls =
     (filter (\<lambda>l. classify w l = RIGHT) ls, filter (\<lambda>l. classify w l = LEFT) ls)"
  unfolding classify_lines_eq classify_eq
  by (auto intro!: filter_cong simp del: slope.simps)

lemma slope_floor:
  "x2 \<noteq> x1 \<Longrightarrow> slope (x1, y1, x2, y2) = of_int \<lfloor>of_int (y2 - y1) / (of_int (x2 - x1) :: real)\<rfloor>"
  by (simp add: floor_divide_of_int_eq flip: of_int_diff)

lemma slope_sign:
  assumes "x2 \<noteq> x1"
  shows "slope (x1, y1, x2, y2) > 0 \<longleftrightarrow> 1 \<le> of_int (y2 - y1) / (of_int (x2 - x1) :: real)"
    and "slope (x1, y1, x2, y2) < 0 \<longleftrightarrow> of_int (y2 - y1) / (of_int (x2 - x1) :: real) < 0"
    and "\<bar>slope (x1, y1, x2, y2)\<bar> > slope_threshold \<longleftrightarrow> slope (x1, y1, x2, y2) \<noteq> 0"
proof -
  let ?q = "of_int (y2 - y1) / (of_int (x2 - x1) :: real)"
  have s: "slope (x1, y1, x2, y2) = of_int \<lfloor>?q\<rfloor>"
    using assms by (rule slope_floor)
  show "slope (x1, y1, x2, y2) > 0 \<longleftrightarrow> 1 \<le> ?q"
    unfolding s by (simp add: less_floor_iff del: slope.simps) 
  show "slope (x1, y1, x2, y2) < 0 \<longleftrightarrow> ?q < 0"
    unfolding s by (simp add: floor_less_iff del: slope.simps)
  show "\<bar>slope (x1, y1, x2, y2)\<bar> > slope_threshold \<longleftrightarrow> slope (x1, y1, x2, y2) \<noteq> 0"
    unfolding s slope_threshold_def by (simp del: slope.simps) linarith
qed

text \<open>
  In terms of the exact slope: a segment is RIGHT when it is vertical or its slope is at
  least 1, and both ends are right of the centre; LEFT when its slope is negative and both
  ends are left of the centre.
\<close>

lemma classify_real_slope:
  "classify w (x1, y1, x2, y2) =
     (if (x2 = x1 \<or> 1 \<le> of_int (y2 - y1) / (of_int (x2 - x1) :: real))
         \<and> x1 > w div 2 \<and> x2 > w div 2 then RIGHT
      else if x2 \<noteq> x1 \<and> of_int (y2 - y1) / (of_int (x2 - x1) :: real) < 0
         \<and> x1 < w div 2 \<and> x2 < w div 2 then LEFT
      else DISCARDED)"
proof (cases "x2 = x1")
  case True
  then show ?thesis by (simp add: classify_eq slope_threshold_def)
next
  case False
  note sg = slope_sign [OF False, of y1 y2]
  have pos: "slope (x1, y1, x2, y2) > 0 \<Longrightarrow> slope (x1, y1, x2, y2) \<noteq> 0"
    and neg: "slope (x1, y1, x2, y2) < 0 \<Longrightarrow> slope (x1, y1, x2, y2) \<noteq> 0"
    by linarith+
  show ?thesis
    unfolding classify_eq sg(3) using False sg(1,2) pos neg
    by (auto simp del: slope.simps)
qed

text \<open>
  C1. A segment is eligible only if the magnitude of its slope \<open>(y2 - y1) / (x2 - x1)\<close>
  is above 0.5. The code divides two integers, so the slope it tests is the floor of the
  quotient. In a frame 640 wide, the segment from (100, 200) to (120, 195) has slope
  -0.25, of magnitude at most 0.5, and is classified LEFT (the floor is -1); the segment
  from (400, 100) to (420, 115) has slope 0.75, is right of the centre, and is discarded
  (the floor is 0). Both segments are longer than the 10 pixels the line extraction asks
  for.
\<close>

theorem classify_floor_slope:
  "classify 640 (100, 200, 120, 195) = LEFT
   \<and> \<bar>(195 - 200) / (120 - 100) :: real\<bar> \<le> 5 / 10
   \<and> classify 640 (400, 100, 420, 115) = DISCARDED
   \<and> \<bar>(115 - 100) / (420 - 400) :: real\<bar> > 5 / 10
   \<and> (0 :: real) < (115 - 100) / (420 - 400) \<and> (400 :: int) > 640 div 2 \<and> (420 :: int) > 640 div 2
   \<and> (10 :: int) ^ 2 \<le> (120 - 100) ^ 2 + (195 - 200) ^ 2
   \<and> (10 :: int) ^ 2 \<le> (420 - 400) ^ 2 + (115 - 100) ^ 2"
  by (simp add: classify_eq slope_threshold_def)

section \<open>The fit of one side\<close>

text \<open>
  C6. The fit of an empty sequence of segments leaves the side not to be drawn
  (\<open>draw\<close> is False, the coefficients are the defaults 1 and 1) and makes no call of
  the regression, whatever the regression is.
\<close>

theorem fit_side_empty:
  "fit_side pf [] = \<lparr>fit_m = 1, fit_b = 1, draw = False, polyfit_calls = []\<rparr>"
  by (simp add: fit_side_def)

lemma lines_xy_length: "length (fst (lines_xy ls)) = 2 * length ls"
  by (induction ls) (auto split: prod.splits)

lemma fit_side_draw: "draw (fit_side pf ls) \<longleftrightarrow> ls \<noteq> []"
  using lines_xy_length [of ls]
  by (auto simp: fit_side_def split: prod.splits)

lemma fit_side_calls: "polyfit_calls (fit_side pf ls) = [] \<longleftrightarrow> ls = []"
  using lines_xy_length [of ls]
  by (auto simp: fit_side_def split: prod.splits)

section \<open>End points, drawing and the worker loop\<close>

lemma py_int_of_int: "py_int (of_int h) = h"
  by (simp add: py_int_def)


lemma draw_lines_frame:
  assumes "draw_lines pf h w lines st = Inr d"
  shows "command_timer (new_state d) = command_timer st"
    and "commands_queue (new_state d) = commands_queue st"
    and "analysed_frame_queue (new_state d) = analysed_frame_queue st"
    and "current_frame (new_state d) = current_frame st"
  using assms
  by (auto simp: draw_lines_def Let_def split: option.splits if_splits prod.splits sum.splits)

lemma draw_lines_no_segments:
  assumes "lines = None \<or> lines = Some []"
  shows "draw_lines pf h w lines st = Inr \<lparr>new_state = st, lines_drawn = [], regressions = []\<rparr>"
  using assms by (auto simp: draw_lines_def)

lemma draw_lines_Some:
  assumes "ls \<noteq> []" and "classify_lines w ls = (rs, lfs)"
    and "fit_side pf rs = r" and "fit_side pf lfs = l"
  shows "draw_lines pf h w (Some ls) st =
     (case find_end_points h r l of Inl e \<Rightarrow> Inl e | Inr ep \<Rightarrow>
     (case cv2_line (draw r) (right_x1 ep, ep_y1 ep) (right_x2 ep, ep_y2 ep) of
        Inl e \<Rightarrow> Inl e | Inr right_line \<Rightarrow>
     (case cv2_line (draw l) (left_x1 ep, ep_y1 ep) (left_x2 ep, ep_y2 ep) of
        Inl e \<Rightarrow> Inl e | Inr left_line \<Rightarrow>
     Inr \<lparr>new_state = st\<lparr>right_x1_coord := right_x1 ep, y1_coord := ep_y1 ep,
                           left_x1_coord := left_x1 ep\<rparr>,
          lines_drawn = right_line @ left_line,
          regressions = polyfit_calls r @ polyfit_calls l\<rparr>)))"
  using assms by (simp add: draw_lines_def)

lemma lane_assist_Inr:
  assumes "draw_lines (polyfit vis) (height f) (width f) (hough_lines_p vis f) st = Inr d"
  shows "lane_assist vis f t_check t_reset st =
     Inr (Annotated f (lines_drawn d) (Circle (final_x (new_state d), y1_coord (new_state d)) 50),
          if t_check - command_timer st > 300 / 1000
          then (new_state d)\<lparr>commands_queue :=
                  commands_queue st @ [steer_command (width f) (final_x (new_state d))],
                command_timer := t_reset\<rparr>
          else new_state d)"
  using assms draw_lines_frame(1,2) [OF assms]
  by (simp add: lane_assist_def Let_def)

lemma lane_assist_Inl:
  assumes "draw_lines (polyfit vis) (height f) (width f) (hough_lines_p vis f) st = Inl e"
  shows "lane_assist vis f t_check t_reset st = Inl e"
  using assms by (simp add: lane_assist_def)





lemma step_payload:
  "analysed_frame_queue (state_of (analyse_step vis st it)) = analysed_frame_queue st
   \<or> (\<exists>img bs. current_frame (state_of (analyse_step vis st it)) = Some img
        \<and> imencode vis ''.jpg'' img [IMWRITE_JPEG_QUALITY, 60] = (True, bs)
        \<and> analysed_frame_queue (state_of (analyse_step vis st it)) =
            analysed_frame_queue st @ [if is_analysing it then NdArray bs else Str bs])"
proof (cases "imdecode vis (string_data it)")
  case None
  then show ?thesis by (simp add: analyse_step_def)
next
  case (Some f)
  show ?thesis
  proof (cases "is_analysing it")
    case False
    with Some show ?thesis
      by (auto simp: analyse_step_def encode_parameter_def Let_def split: prod.splits)
  next
    case True
    let ?st0 = "st\<lparr>current_frame := Some (Decoded f)\<rparr>"
    show ?thesis
    proof (cases "draw_lines (polyfit vis) (height f) (width f) (hough_lines_p vis f) ?st0")
      case (Inl e)
      with Some True show ?thesis
        by (simp add: analyse_step_def lane_assist_Inl)
    next
      case (Inr d)
      from draw_lines_frame(3) [OF Inr] Some True show ?thesis
        by (auto simp: analyse_step_def lane_assist_Inr [OF Inr] encode_parameter_def Let_def
              split: prod.splits)
    qed
  qed
qed

lemma step_encoded_q60:
  assumes "\<forall>p \<in> set (analysed_frame_queue st). encoded_q60 vis p"
  shows "\<forall>p \<in> set (analysed_frame_queue (state_of (analyse_step vis st it))). encoded_q60 vis p"
proof -
  let ?q = "analysed_frame_queue (state_of (analyse_step vis st it))"
  from step_payload [of vis st it]
  consider "?q = analysed_frame_queue st"
    | img bs where "imencode vis ''.jpg'' img [IMWRITE_JPEG_QUALITY, 60] = (True, bs)"
        "?q = analysed_frame_queue st @ [if is_analysing it then NdArray bs else Str bs]"
    by blast
  then show ?thesis
  proof cases
    case 1
    with assms show ?thesis by simp
  next
    case 2
    have "encoded_q60 vis (if is_analysing it then NdArray bs else Str bs)"
      unfolding encoded_q60_def using 2(1) by (intro exI [of _ img]) simp
    with assms 2(2) show ?thesis by simp
  qed
qed

lemma loop_encoded_q60:
  assumes "\<forall>p \<in> set (analysed_frame_queue st). encoded_q60 vis p"
  shows "\<forall>p \<in> set (analysed_frame_queue (state_of (analyse_loop vis st its))). encoded_q60 vis p"
  using assms
proof (induction its arbitrary: st)
  case Nil
  then show ?case by simp
next
  case (Cons it its)
  show ?case
  proof (cases "is_running it")
    case False
    with Cons.prems show ?thesis by simp
  next
    case True
    note step = step_encoded_q60 [OF Cons.prems, of it]
    show ?thesis
    proof (cases "analyse_step vis st it")
      case (Continue st')
      with step have "\<forall>p \<in> set (analysed_frame_queue st'). encoded_q60 vis p" by simp
      from Cons.IH [OF this] True Continue show ?thesis by simp
    next
      case (Break st')
      with step True show ?thesis by simp
    next
      case (Raise e st')
      with step True show ?thesis by simp
    qed
  qed
qed

lemma bypass_step:
  assumes "\<not> is_analysing it"
  shows "analyse_step vis st it =
     (case imdecode vis (string_data it) of
        None \<Rightarrow> Raise CvError (st\<lparr>current_frame := None\<rparr>)
      | Some f \<Rightarrow>
          if fst (imencode vis ''.jpg'' (Decoded f) [IMWRITE_JPEG_QUALITY, 60])
          then Continue (st\<lparr>current_frame := Some (Decoded f),
                 analysed_frame_queue := analysed_frame_queue st @
                   [Str (snd (imencode vis ''.jpg'' (Decoded f) [IMWRITE_JPEG_QUALITY, 60]))]\<rparr>)
          else Break (st\<lparr>current_frame := Some (Decoded f)\<rparr>))"
  using assms
  by (simp add: analyse_step_def encode_parameter_def Let_def split: option.splits prod.splits)

lemma bypass_no_chain:
  assumes "\<not> is_analysing it"
  shows "analyse_step (vis\<lparr>hough_lines_p := h', polyfit := pf'\<rparr>) st it = analyse_step vis st it"
  using assms by (simp add: bypass_step split: option.splits)

lemma bypass_quiet:
  assumes "\<not> is_analysing it"
  shows "commands_queue (state_of (analyse_step vis st it)) = commands_queue st
    \<and> command_timer (state_of (analyse_step vis st it)) = command_timer st
    \<and> right_x1_coord (state_of (analyse_step vis st it)) = right_x1_coord st
    \<and> left_x1_coord (state_of (analyse_step vis st it)) = left_x1_coord st
    \<and> y1_coord (state_of (analyse_step vis st it)) = y1_coord st"
  using assms by (simp add: bypass_step split: option.splits)

lemma steer_command_start:
  assumes "44 \<le> w"
  shows "steer_command w 1 = ''4/''"
proof -
  from assms have "1 < w div 2 - 20" by linarith
  then show ?thesis by (simp add: steer_command_def)
qed

lemma no_segments_step:
  assumes f: "\<forall>f. imdecode vis (string_data it) = Some f \<longrightarrow>
            (hough_lines_p vis f = None \<or> hough_lines_p vis f = Some []) \<and> 44 \<le> width f"
    and c: "right_x1_coord st = 1" "left_x1_coord st = 1"
  shows "right_x1_coord (state_of (analyse_step vis st it)) = 1
    \<and> left_x1_coord (state_of (analyse_step vis st it)) = 1
    \<and> y1_coord (state_of (analyse_step vis st it)) = y1_coord st
    \<and> (commands_queue (state_of (analyse_step vis st it)) = commands_queue st
       \<or> commands_queue (state_of (analyse_step vis st it)) = commands_queue st @ [''4/''])"
proof (cases "imdecode vis (string_data it)")
  case None
  with c show ?thesis by (simp add: analyse_step_def)
next
  case (Some f)
  with f have nl: "hough_lines_p vis f = None \<or> hough_lines_p vis f = Some []"
    and w: "44 \<le> width f" by auto
  show ?thesis
  proof (cases "is_analysing it")
    case False
    from bypass_quiet [OF False, of vis st] c show ?thesis by simp
  next
    case True
    let ?st0 = "st\<lparr>current_frame := Some (Decoded f)\<rparr>"
    have d: "draw_lines (polyfit vis) (height f) (width f) (hough_lines_p vis f) ?st0 =
        Inr \<lparr>new_state = ?st0, lines_drawn = [], regressions = []\<rparr>"
      using nl by (rule draw_lines_no_segments)
    have fx: "final_x ?st0 = 1" using c by (simp add: final_x_def)
    show ?thesis
      using Some True c fx steer_command_start [OF w]
      by (simp add: analyse_step_def lane_assist_Inr [OF d] Let_def split: prod.splits)
  qed
qed

lemma no_segments_loop:
  assumes "\<forall>it \<in> set its. \<forall>f. imdecode vis (string_data it) = Some f \<longrightarrow>
            (hough_lines_p vis f = None \<or> hough_lines_p vis f = Some []) \<and> 44 \<le> width f"
    and "right_x1_coord st = 1" "left_x1_coord st = 1"
    and "set (commands_queue st) \<subseteq> {''4/''}"
  shows "right_x1_coord (state_of (analyse_loop vis st its)) = 1
    \<and> left_x1_coord (state_of (analyse_loop vis st its)) = 1
    \<and> set (commands_queue (state_of (analyse_loop vis st its))) \<subseteq> {''4/''}"
  using assms
proof (induction its arbitrary: st)
  case Nil
  then show ?case by simp
next
  case (Cons it its)
  show ?case
  proof (cases "is_running it")
    case False
    with Cons.prems show ?thesis by simp
  next
    case True
    let ?st' = "state_of (analyse_step vis st it)"
    have hd: "\<forall>f. imdecode vis (string_data it) = Some f \<longrightarrow>
            (hough_lines_p vis f = None \<or> hough_lines_p vis f = Some []) \<and> 44 \<le> width f"
      using Cons.prems(1) by simp
    have tl: "\<forall>it \<in> set its. \<forall>f. imdecode vis (string_data it) = Some f \<longrightarrow>
            (hough_lines_p vis f = None \<or> hough_lines_p vis f = Some []) \<and> 44 \<le> width f"
      using Cons.prems(1) by simp
    from no_segments_step [OF hd Cons.prems(2,3)]
    have st': "right_x1_coord ?st' = 1" "left_x1_coord ?st' = 1"
      "commands_queue ?st' = commands_queue st \<or> commands_queue ?st' = commands_queue st @ [''4/'']"
      by simp_all
    from st'(3) Cons.prems(4) have q: "set (commands_queue ?st') \<subseteq> {''4/''}" by auto
    show ?thesis
    proof (cases "analyse_step vis st it")
      case (Continue s)
      with st' q Cons.IH [OF tl, of s] True show ?thesis by simp
    next
      case (Break s)
      with st' q True show ?thesis by simp
    next
      case (Raise e s)
      with st' q True show ?thesis by simp
    qed
  qed
qed

lemma draw_lines_other_state:
  assumes "draw_lines pf h w lines s1 = Inr d1"
    and "lines = None \<or> lines = Some [] \<Longrightarrow>
           right_x1_coord s2 = right_x1_coord s1 \<and> left_x1_coord s2 = left_x1_coord s1
           \<and> y1_coord s2 = y1_coord s1"
  shows "\<exists>d2. draw_lines pf h w lines s2 = Inr d2
     \<and> lines_drawn d2 = lines_drawn d1 \<and> regressions d2 = regressions d1
     \<and> right_x1_coord (new_state d2) = right_x1_coord (new_state d1)
     \<and> left_x1_coord (new_state d2) = left_x1_coord (new_state d1)
     \<and> y1_coord (new_state d2) = y1_coord (new_state d1)"
proof (cases "lines = None \<or> lines = Some []")
  case True
  from draw_lines_no_segments [OF True] assms(1) assms(2) [OF True] show ?thesis
    by auto
next
  case False
  then obtain ls where ls: "lines = Some ls" "ls \<noteq> []" by (cases lines) auto
  from assms(1) show ?thesis
    unfolding ls draw_lines_def using ls(2)
    by (auto simp: Let_def split: prod.splits sum.splits)
qed

lemma draw_lines_error_any_state:
  assumes "draw_lines pf h w lines s1 = Inl e"
  shows "draw_lines pf h w lines s2 = Inl e"
  using assms
  by (auto simp: draw_lines_def Let_def split: option.splits if_splits prod.splits sum.splits)

lemma lane_assist_cases:
  assumes "lane_assist vis f t_check t_reset st = Inr (img, st')"
  obtains d where "draw_lines (polyfit vis) (height f) (width f) (hough_lines_p vis f) st = Inr d"
proof (cases "draw_lines (polyfit vis) (height f) (width f) (hough_lines_p vis f) st")
  case (Inl e)
  with assms show ?thesis by (simp add: lane_assist_def)
next
  case (Inr d)
  with that show ?thesis by blast
qed

lemma lane_assist_other_state:
  assumes la: "lane_assist vis f t1 r1 s1 = Inr (img, s1')"
    and same: "hough_lines_p vis f = None \<or> hough_lines_p vis f = Some [] \<Longrightarrow>
           right_x1_coord s2 = right_x1_coord s1 \<and> left_x1_coord s2 = left_x1_coord s1
           \<and> y1_coord s2 = y1_coord s1"
  shows "\<exists>s2'. lane_assist vis f t2 r2 s2 = Inr (img, s2')
     \<and> final_x s2' = final_x s1'
     \<and> (t1 - command_timer s1 > 300 / 1000 \<and> t2 - command_timer s2 > 300 / 1000
          \<longrightarrow> last (commands_queue s2') = last (commands_queue s1'))"
proof -
  from la obtain d1 where d1: "draw_lines (polyfit vis) (height f) (width f) (hough_lines_p vis f) s1 = Inr d1"
    by (rule lane_assist_cases)
  from draw_lines_other_state [OF d1 same] obtain d2 where
    d2: "draw_lines (polyfit vis) (height f) (width f) (hough_lines_p vis f) s2 = Inr d2"
    and eq: "lines_drawn d2 = lines_drawn d1"
      "right_x1_coord (new_state d2) = right_x1_coord (new_state d1)"
      "left_x1_coord (new_state d2) = left_x1_coord (new_state d1)"
      "y1_coord (new_state d2) = y1_coord (new_state d1)"
    by blast
  have fx: "final_x (new_state d2) = final_x (new_state d1)"
    using eq by (simp add: final_x_def)
  from la have s1': "img = Annotated f (lines_drawn d1) (Circle (final_x (new_state d1), y1_coord (new_state d1)) 50)"
    "final_x s1' = final_x (new_state d1)"
    "t1 - command_timer s1 > 300 / 1000 \<Longrightarrow> last (commands_queue s1') = steer_command (width f) (final_x (new_state d1))"
    unfolding lane_assist_Inr [OF d1] by (auto simp: final_x_def)
  show ?thesis
    unfolding lane_assist_Inr [OF d2] using s1' eq fx
    by (auto simp: final_x_def)
qed

lemma lane_assist_coords:
  assumes "lane_assist vis f t1 r1 s1 = Inr (img, s1')"
    and "hough_lines_p vis f = None \<or> hough_lines_p vis f = Some []"
  shows "right_x1_coord s1' = right_x1_coord s1 \<and> left_x1_coord s1' = left_x1_coord s1
           \<and> y1_coord s1' = y1_coord s1"
  using assms(1) unfolding lane_assist_Inr [OF draw_lines_no_segments [OF assms(2)]]
  by auto

section \<open>Rounding to a double\<close>

lemma bits_bounds:
  "0 < n \<Longrightarrow> 2 ^ (bits n - 1) \<le> n \<and> n < 2 ^ bits n"
proof (induction n rule: bits.induct)
  case (1 n)
  show ?case
  proof (cases "n div 2 = 0")
    case True
    with "1.prems" have "n = 1" by presburger
    then show ?thesis by (simp add: bits.simps)
  next
    case False
    then have pos: "0 < n div 2" by simp
    have b: "bits n = Suc (bits (n div 2))"
      using "1.prems" by (subst bits.simps) simp
    from "1.IH" [OF _ pos] "1.prems"
    have ih: "2 ^ (bits (n div 2) - 1) \<le> n div 2" "n div 2 < 2 ^ bits (n div 2)" by simp_all
    have bp: "0 < bits (n div 2)"
      using pos by (subst bits.simps) simp
    then have e: "2 ^ bits (n div 2) = (2 :: nat) * 2 ^ (bits (n div 2) - 1)"
      by (cases "bits (n div 2)") simp_all
    have d: "2 * (n div 2) \<le> n" "n < 2 * (n div 2) + 2" by presburger+
    have lo: "2 * 2 ^ (bits (n div 2) - 1) \<le> n"
      using ih(1) d(1) by linarith
    have hi: "n < 2 * 2 ^ bits (n div 2)"
      using ih(2) d(2) by linarith
    show ?thesis
      unfolding b using lo hi e by simp
  qed
qed

lemma pow2_pos: "0 < pow2 e"
  by (simp add: pow2_def)

lemma pow2_add: "pow2 (a + b) = pow2 a * pow2 b"
proof -
  have p: "pow2 e = 2 powr (of_int e)" for e
  proof (cases "0 \<le> e")
    case True
    then show ?thesis
      by (simp add: pow2_def powr_realpow [symmetric])
  next
    case False
    then have "pow2 e = 1 / 2 powr (of_int (- e))"
      by (simp add: pow2_def powr_realpow [symmetric])
    then show ?thesis by (simp add: powr_minus_divide)
  qed
  show ?thesis by (simp add: p powr_add)
qed

lemma pow2_nat: "pow2 (int n) = 2 ^ n"
  by (simp add: pow2_def)

lemma pow2_Suc: "pow2 (e + 1) = 2 * pow2 e"
  using pow2_add [of e 1] by (simp add: pow2_def)

lemma pow2_neg: "pow2 (- e) = 1 / pow2 e"
  using pow2_add [of e "- e"] pow2_pos [of e] by (simp add: pow2_def field_simps)

lemma pow2_mono: "a \<le> b \<Longrightarrow> pow2 a \<le> pow2 b"
proof -
  assume "a \<le> b"
  then have "1 \<le> pow2 (b - a)" by (simp add: pow2_def)
  moreover have "pow2 b = pow2 a * pow2 (b - a)"
    using pow2_add [of a "b - a"] by simp
  ultimately show ?thesis
    using pow2_pos [of a] by (simp add: mult_le_cancel_left1)
qed

lemma exponent_bounds:
  assumes "0 < a"
  shows "pow2 (exponent a) \<le> a \<and> a < pow2 (exponent a + 1)"
proof (cases "1 \<le> a")
  case True
  let ?n = "nat \<lfloor>a\<rfloor>"
  from True have n: "0 < ?n" by simp
  from bits_bounds [OF n] have b: "2 ^ (bits ?n - 1) \<le> ?n" "?n < 2 ^ bits ?n" by simp_all
  from b(2) have bp: "0 < bits ?n"
    using n by (cases "bits ?n") simp_all
  have ex: "exponent a = int (bits ?n - 1)"
    using True bp by (simp add: exponent_def)
  have na: "real ?n \<le> a" "a < real ?n + 1"
    using True by linarith+
  have "(2 :: real) ^ (bits ?n - 1) \<le> real ?n"
    using b(1) by (metis of_nat_le_iff of_nat_numeral of_nat_power)
  with na(1) have lo: "pow2 (exponent a) \<le> a"
    unfolding ex pow2_nat by linarith
  have "real ?n + 1 \<le> 2 ^ bits ?n"
    using b(2) by (metis Suc_leI of_nat_Suc of_nat_le_iff of_nat_numeral of_nat_power add.commute)
  moreover have "exponent a + 1 = int (bits ?n)"
    using ex bp by simp
  ultimately have hi: "a < pow2 (exponent a + 1)"
    using na(2) by (simp add: pow2_nat)
  from lo hi show ?thesis ..
next
  case False
  let ?n = "nat \<lfloor>1 / a\<rfloor>"
  define k where "k = int (bits ?n) - 1"
  from False assms have inv: "1 < 1 / a" by simp
  then have n: "0 < ?n" by simp
  from bits_bounds [OF n] have b: "2 ^ (bits ?n - 1) \<le> ?n" "?n < 2 ^ bits ?n" by simp_all
  from b(2) have bp: "0 < bits ?n"
    using n by (cases "bits ?n") simp_all
  have k: "k = int (bits ?n - 1)" "k + 1 = int (bits ?n)"
    using bp by (simp_all add: k_def)
  have na: "real ?n \<le> 1 / a" "1 / a < real ?n + 1"
    using inv by linarith+
  have "(2 :: real) ^ (bits ?n - 1) \<le> real ?n"
    using b(1) by (metis of_nat_le_iff of_nat_numeral of_nat_power)
  with na(1) have "pow2 k \<le> 1 / a"
    unfolding k(1) pow2_nat by linarith
  then have up: "a * pow2 k \<le> 1"
    using assms by (simp add: field_simps)
  have "real ?n + 1 \<le> 2 ^ bits ?n"
    using b(2) by (metis Suc_leI of_nat_Suc of_nat_le_iff of_nat_numeral of_nat_power add.commute)
  with na(2) have "1 / a < pow2 (k + 1)"
    unfolding k(2) pow2_nat by linarith
  then have dn: "1 < a * pow2 (k + 1)"
    using assms by (simp add: field_simps)
  have n1: "pow2 (- k) = 1 / pow2 k" by (rule pow2_neg)
  have n2: "pow2 (- k - 1) = 1 / pow2 (k + 1)"
    using pow2_neg [of "k + 1"] by simp
  have n3: "pow2 (- k + 1) = 2 * pow2 (- k)" by (rule pow2_Suc)
  show ?thesis
  proof (cases "a * pow2 k = 1")
    case True
    then have ex: "exponent a = - k"
      using False by (simp add: exponent_def Let_def k_def)
    from True have "a = 1 / pow2 k"
      using pow2_pos [of k] by (simp add: field_simps)
    with n1 have a: "a = pow2 (- k)" by simp
    from a n3 assms have "pow2 (- k) \<le> a" "a < pow2 (- k + 1)" by simp_all
    then show ?thesis unfolding ex by simp
  next
    case ne: False
    then have ex: "exponent a = - k - 1"
      using False by (simp add: exponent_def Let_def k_def)
    from dn have lo: "pow2 (- k - 1) \<le> a"
      unfolding n2 using pow2_pos [of "k + 1"] by (simp add: field_simps)
    from up ne have "a * pow2 k < 1" by simp
    then have "a < pow2 (- k)"
      unfolding n1 using pow2_pos [of k] by (simp add: field_simps)
    then have hi: "a < pow2 (- k - 1 + 1)" by simp
    from lo hi show ?thesis unfolding ex by blast
  qed
qed

lemma round_half_even_close: "\<bar>of_int (round_half_even q) - q\<bar> \<le> 1 / 2"
  unfolding round_half_even_def Let_def by (auto; linarith)

lemma rnd_cases:
  assumes "pow2 (- 1022) \<le> \<bar>x\<bar>"
  obtains v where "\<bar>v - x\<bar> \<le> \<bar>x\<bar> / 2 ^ 53"
    and "rnd x = (if pow2 1024 \<le> v then PInf else if v \<le> - pow2 1024 then NInf else Finite v)"
proof -
  let ?e = "exponent \<bar>x\<bar>"
  let ?ulp = "pow2 (?e - 52)"
  let ?v = "of_int (round_half_even (x / ?ulp)) * ?ulp"
  from assms pow2_pos [of "- 1022"] have x: "x \<noteq> 0" "0 < \<bar>x\<bar>" by auto
  from exponent_bounds [OF x(2)] have eb: "pow2 ?e \<le> \<bar>x\<bar>" "\<bar>x\<bar> < pow2 (?e + 1)" by simp_all
  have e: "- 1022 \<le> ?e"
  proof (rule ccontr)
    assume "\<not> - 1022 \<le> ?e"
    then have "?e + 1 \<le> - 1022" by simp
    from pow2_mono [OF this] eb(2) assms show False by simp
  qed
  then have m: "max ?e (- 1022) = ?e" by simp
  have r: "rnd x = (if pow2 1024 \<le> ?v then PInf else if ?v \<le> - pow2 1024 then NInf else Finite ?v)"
    using x(1) unfolding rnd_def Let_def m by simp
  have up: "0 < ?ulp" by (rule pow2_pos)
  have "?v - x = (of_int (round_half_even (x / ?ulp)) - x / ?ulp) * ?ulp"
    using up by (simp add: field_simps)
  then have "\<bar>?v - x\<bar> = \<bar>of_int (round_half_even (x / ?ulp)) - x / ?ulp\<bar> * ?ulp"
    using up by (simp add: abs_mult)
  also have "\<dots> \<le> 1 / 2 * ?ulp"
    using round_half_even_close [of "x / ?ulp"] up by (simp add: mult_right_mono)
  also have "\<dots> = pow2 ?e / 2 ^ 53"
  proof -
    have "pow2 ?e = pow2 (?e - 52) * pow2 52"
      using pow2_add [of "?e - 52" 52] by simp
    then show ?thesis by (simp add: pow2_def)
  qed
  also have "\<dots> \<le> \<bar>x\<bar> / 2 ^ 53"
    using eb(1) by (simp add: divide_right_mono)
  finally have "\<bar>?v - x\<bar> \<le> \<bar>x\<bar> / 2 ^ 53" .
  with r that show ?thesis by blast
qed




section \<open>The clock and the throttle test\<close>

text \<open>
  The difference of two clock readings is a multiple of \<open>2 ^ -51\<close>, so it is never
  300 ms, and it lies on the same side of 3 / 10 as of the double that
  \<^verbatim>\<open>300.0 / 1000.0\<close> is.
\<close>

lemma clock_reading_int:
  assumes "clock_reading a" and "clock_reading b"
  obtains k :: int where "a - b = of_int k / 2 ^ 51"
proof -
  have fa: "of_int \<lfloor>a * 2 ^ 51\<rfloor> = a * 2 ^ 51"
    using assms(1) unfolding clock_reading_def by (rule conjunct2)
  have fb: "of_int \<lfloor>b * 2 ^ 51\<rfloor> = b * 2 ^ 51"
    using assms(2) unfolding clock_reading_def by (rule conjunct2)
  have "(a - b) * 2 ^ 51 = of_int (\<lfloor>a * 2 ^ 51\<rfloor> - \<lfloor>b * 2 ^ 51\<rfloor>)"
    unfolding of_int_diff fa fb by (simp only: left_diff_distrib)
  then have "a - b = of_int (\<lfloor>a * 2 ^ 51\<rfloor> - \<lfloor>b * 2 ^ 51\<rfloor>) / 2 ^ 51"
    by (simp add: field_simps)
  with that show ?thesis by blast
qed

lemma clock_elapsed_cases:
  assumes "clock_reading a" and "clock_reading b"
  shows "a - b \<le> 675539944105574 / 2 ^ 51 \<or> 675539944105575 / 2 ^ 51 \<le> a - b"
proof -
  from assms obtain k :: int where k: "a - b = of_int k / 2 ^ 51"
    by (rule clock_reading_int)
  have "k \<le> 675539944105574 \<or> 675539944105575 \<le> k" by linarith
  then show ?thesis
  proof
    assume "k \<le> 675539944105574"
    then have "real_of_int k \<le> 675539944105574" by linarith
    then show ?thesis unfolding k by (simp add: divide_right_mono)
  next
    assume "675539944105575 \<le> k"
    then have "675539944105575 \<le> real_of_int k" by linarith
    then show ?thesis unfolding k by (simp add: divide_right_mono)
  qed
qed


lemma threshold_double:
  "fdiv (Finite 300) (Finite 1000) = Finite (5404319552844595 / 18014398509481984)"
  by (simp add: rnd_def exponent_def round_half_even_def pow2_def bits.simps Let_def)

text \<open>
  The test of line 272, made on doubles, is the test on real numbers that
  \<open>lane_assist\<close> makes, for all clock readings.
\<close>

lemma throttle_test_double:
  assumes "clock_reading a" and "clock_reading b"
  shows "fgt (fsub (Finite a) (Finite b)) (fdiv (Finite 300) (Finite 1000))
     \<longleftrightarrow> a - b > 300 / 1000"
proof (cases "a - b = 0")
  case True
  have "rnd 0 = Finite 0" by (simp add: rnd_def)
  with True show ?thesis unfolding threshold_double by simp
next
  case False
  define x where "x = a - b"
  from assms obtain k :: int where k: "x = of_int k / 2 ^ 51"
    unfolding x_def by (rule clock_reading_int)
  from False k have "k \<noteq> 0" by (auto simp: x_def)
  then have "1 \<le> \<bar>real_of_int k\<bar>" by linarith
  then have small: "1 / 2 ^ 51 \<le> \<bar>x\<bar>"
    unfolding k by (simp add: divide_right_mono)
  have "pow2 (- 1022) \<le> pow2 (- 51)" by (rule pow2_mono) simp
  also have "pow2 (- 51) = 1 / 2 ^ 51" by (simp add: pow2_def)
  finally have "pow2 (- 1022) \<le> \<bar>x\<bar>" using small by linarith
  then obtain v where v: "\<bar>v - x\<bar> \<le> \<bar>x\<bar> / 2 ^ 53"
    and r: "rnd x = (if pow2 1024 \<le> v then PInf else if v \<le> - pow2 1024 then NInf else Finite v)"
    by (rule rnd_cases)
  have big: "1 \<le> pow2 1024"
    using pow2_mono [of 0 1024] by (simp add: pow2_def)
  from v have v': "\<bar>v - x\<bar> \<le> \<bar>x\<bar> / 9007199254740992" by simp
  from clock_elapsed_cases [OF assms]
  consider (below) "x \<le> 675539944105574 / 2251799813685248"
    | (above) "675539944105575 / 2251799813685248 \<le> x"
    unfolding x_def by auto
  then have "fgt (rnd x) (Finite (5404319552844595 / 18014398509481984)) \<longleftrightarrow> x > 300 / 1000"
  proof cases
    case below
    then have nx: "\<not> x > 300 / 1000" by linarith
    from v' below have vd: "v \<le> 5404319552844595 / 18014398509481984" by linarith
    then have "\<not> pow2 1024 \<le> v" using big by linarith
    with vd nx show ?thesis unfolding r by simp
  next
    case above
    then have px: "x > 300 / 1000" by linarith
    from v' above have vd: "5404319552844595 / 18014398509481984 < v" by linarith
    then have "\<not> v \<le> - pow2 1024" using big by linarith
    with vd px show ?thesis unfolding r by simp
  qed
  then show ?thesis unfolding threshold_double by (simp add: x_def)
qed

section \<open>Evaluation\<close>

lemmas fl_defs = rnd_def exponent_def round_half_even_def pow2_def bits.simps
        float_of_int_def trap_height_def end_x_def bottom_x_def c_int_def cv2_line_def

lemmas eval_defs = draw_lines_def classify_lines_eq fit_side_def find_end_points_def
        py_int_def slope_threshold_def Let_def fl_defs

lemmas run_defs = analyse_def analyse_step_def lane_assist_def sample_vision_def pass_def
        init_state_def steer_command_def final_x_def encode_parameter_def

section \<open>End points of the lane lines\<close>

text \<open>
  The constants of line 194 as doubles: \<^verbatim>\<open>0.97\<close> and \<^verbatim>\<open>1 - trap_height\<close>, which
  is 0.030000000000000027.
\<close>

lemma trap_height_value:
  "trap_height = Finite (4368491638549381 / 4503599627370496)"
  "fsub (Finite 1) trap_height = Finite (135107988821115 / 4503599627370496)"
  by (simp_all add: fl_defs)


text \<open>
  Rounding shows in the end points: for a frame 100 high and the line m = 1, b = 4, the
  row \<open>y2\<close> is 3.0000000000000027 and the top end point is \<open>x2 = 0\<close>, where the
  exact quotient (3 - 4) / 1 is -1.
\<close>

lemma end_x_double_example:
  "fmul (float_of_int 100) (fsub (Finite 1) trap_height) =
     Finite (3377699720527875 / 1125899906842624)
   \<and> int_of_float (end_x \<lparr>fit_m = 1, fit_b = 4, draw = True, polyfit_calls = []\<rparr>
        (fmul (float_of_int 100) (fsub (Finite 1) trap_height))) = Inr 0
   \<and> (100 * (1 - 97 / 100) - 4) / 1 = (- 1 :: real)"
  by (simp add: fl_defs py_int_def)

text \<open>
  A drawn side with slope 0 raises in \<^verbatim>\<open>int\<close>; a slope so small that an end point
  leaves the range of a C int raises in \<^verbatim>\<open>cv2.line\<close>. Nothing is stored then.
\<close>

lemma draw_lines_zero_slope:
  assumes "ls \<noteq> []" and "classify_lines w ls = (rs, lfs)"
    and "(draw (fit_side pf rs) \<and> fit_m (fit_side pf rs) = 0)
       \<or> (draw (fit_side pf lfs) \<and> fit_m (fit_side pf lfs) = 0)"
  shows "\<exists>e. draw_lines pf h w (Some ls) st = Inl e"
proof -
  have z: "\<exists>e. int_of_float (end_x r (float_of_int h)) = Inl e" if "fit_m r = 0" for r
    using that by (cases "fsub (float_of_int h) (Finite (fit_b r))") (auto simp: end_x_def)
  have "\<exists>e. find_end_points h (fit_side pf rs) (fit_side pf lfs) = Inl e"
    using assms(3) z [of "fit_side pf rs"] z [of "fit_side pf lfs"]
    by (auto simp: find_end_points_def bottom_x_def Let_def split: sum.splits)
  then show ?thesis
    unfolding draw_lines_Some [OF assms(1,2) refl refl] by auto
qed

lemma draw_lines_tiny_slope:
  "draw_lines (\<lambda>xs ys. (1 / 2 ^ 40, 0)) 480 640 (Some [(400, 101, 410, 141)]) init_state =
     Inl OverflowError"
  by (simp add: eval_defs)




section \<open>A side without segments\<close>

text \<open>
  When no segment is classified RIGHT, the right side keeps the defaults m = 1 and b = 1,
  and the coordinate stored for it is the height less 1.
\<close>

lemma draw_lines_no_right:
  assumes "ls \<noteq> []" and "classify_lines w ls = ([], lfs)"
    and "draw_lines pf h w (Some ls) st = Inr d"
  shows "right_x1_coord (new_state d) = h - 1
     \<and> length (lines_drawn d) = (if lfs = [] then 0 else 1)"
proof -
  have r: "fit_side pf [] = \<lparr>fit_m = 1, fit_b = 1, draw = False, polyfit_calls = []\<rparr>"
    by (simp add: fit_side_def)
  from assms(3) show ?thesis
    unfolding draw_lines_Some [OF assms(1,2) r refl] find_end_points_def cv2_line_def Let_def
    using fit_side_draw [of pf lfs]
    by (auto simp: bottom_x_def split: sum.splits if_splits)
qed

text \<open>
  C5. With one segment, classified LEFT, in a frame of 640 by 480, and the regression
  returning the line through its end points (m = -2, b = 601), no right line is drawn:
  the only line drawn is the left one. But the defaults of the right side give
  \<open>right_x1 = 479\<close>, which is stored in \<open>right_x1_coord\<close>, and the lane centre of
  this frame is computed from it: \<open>final_x = (479 + 60) div 2 = 269\<close>.
\<close>

theorem invalid_side_enters_center:
  "classify_lines 640 [(100, 401, 200, 201)] = ([], [(100, 401, 200, 201)])
   \<and> draw_lines (\<lambda>xs ys. (- 2, 601)) 480 640 (Some [(100, 401, 200, 201)]) init_state =
     Inr \<lparr>new_state = init_state\<lparr>right_x1_coord := 479, y1_coord := 480, left_x1_coord := 60\<rparr>,
          lines_drawn = [Line (60, 480) (293, 14)],
          regressions = [([100, 200], [401, 201])]\<rparr>
   \<and> final_x (init_state\<lparr>right_x1_coord := 479, y1_coord := 480, left_x1_coord := 60\<rparr>) = 269
   \<and> (401 :: real) = - 2 * 100 + 601 \<and> (201 :: real) = - 2 * 200 + 601"
  by (simp add: eval_defs final_x_def init_state_def)

section \<open>The steering command\<close>

text \<open>The token at some lane centres of a frame 640 wide: the band ends at 300 and 340.\<close>

lemma steer_command_640:
  "steer_command 640 299 = ''4/'' \<and> steer_command 640 300 = ''1/1/''
   \<and> steer_command 640 330 = ''1/1/'' \<and> steer_command 640 340 = ''1/1/''
   \<and> steer_command 640 345 = ''5/''"
  by (simp add: steer_command_def)

text \<open>
  C2, with \<open>W / 2\<close> read as the exact half, fails for a frame of odd width: for
  W = 641 and centerX = 300, centerX is below 641 / 2 - 20 = 300.5, and the token is the
  straight one.
\<close>

theorem command_real_center_counterexample:
  "steer_command 641 300 = ''1/1/'' \<and> (300 :: real) < 641 / 2 - 20"
  by (simp add: steer_command_def)

text \<open>
  C2, amended. When \<^verbatim>\<open>__draw_lines\<close> returns and more than 300 ms have passed on
  the clock since the timer was set, exactly one token is put: with \<open>c = w div 2\<close>
  (the floor of half the width) and \<open>x\<close> the lane centre, the token is 4/ when
  \<open>x < c - 20\<close>, 5/ when \<open>x > c + 20\<close>, 1/1/ otherwise.
\<close>

theorem command_by_floor_center:
  assumes "draw_lines (polyfit vis) (height f) (width f) (hough_lines_p vis f) st = Inr d"
    and "t_check - command_timer st > 300 / 1000"
  shows "lane_assist vis f t_check t_reset st =
     Inr (Annotated f (lines_drawn d) (Circle (final_x (new_state d), y1_coord (new_state d)) 50),
          (new_state d)\<lparr>commands_queue := commands_queue st @
              [if final_x (new_state d) < width f div 2 - 20 then ''4/''
               else if final_x (new_state d) > width f div 2 + 20 then ''5/''
               else ''1/1/''],
            command_timer := t_reset\<rparr>)"
proof -
  have "steer_command (width f) (final_x (new_state d)) =
      (if final_x (new_state d) < width f div 2 - 20 then ''4/''
       else if final_x (new_state d) > width f div 2 + 20 then ''5/''
       else ''1/1/'')"
    by (auto simp: steer_command_def)
  with assms(2) show ?thesis
    unfolding lane_assist_Inr [OF assms(1)] by simp
qed

text \<open>
  An instance: the first frame of a run, 640 wide, without segments, more than 300 ms
  after the timer was set.
\<close>

theorem command_by_floor_center_witness:
  "lane_assist (sample_vision None (1, 0)) \<lparr>height = 480, width = 640, channels = 3, pixel_buf = []\<rparr>
      1 2 init_state =
     Inr (Annotated \<lparr>height = 480, width = 640, channels = 3, pixel_buf = []\<rparr> [] (Circle (1, 1) 50),
          init_state\<lparr>commands_queue := [''4/''], command_timer := 2\<rparr>)"
  using command_by_floor_center [of "sample_vision None (1, 0)"
      "\<lparr>height = 480, width = 640, channels = 3, pixel_buf = []\<rparr>" init_state
      "\<lparr>new_state = init_state, lines_drawn = [], regressions = []\<rparr>" 1 2]
  by (simp add: sample_vision_def draw_lines_def init_state_def final_x_def)

section \<open>The throttle\<close>



section \<open>The worker loop\<close>

text \<open>
  C8. A pass of the loop leaves the annotated-frame queue as it is or appends one
  payload: the bytes the encoder returned with success for the image held in
  \<open>current_frame\<close>, with extension .jpg and the parameters JPEG quality 60. In
  ANALYZE mode the payload is the numpy array of these bytes, in BYPASS mode their string.
  So over a whole run every payload of the queue is such an encoding, in both modes.
\<close>

theorem payloads_encoded_quality_60:
  "(analysed_frame_queue (state_of (analyse_step vis st it)) = analysed_frame_queue st
    \<or> (\<exists>img bs. current_frame (state_of (analyse_step vis st it)) = Some img
         \<and> imencode vis ''.jpg'' img [IMWRITE_JPEG_QUALITY, 60] = (True, bs)
         \<and> analysed_frame_queue (state_of (analyse_step vis st it)) =
             analysed_frame_queue st @ [if is_analysing it then NdArray bs else Str bs]))
   \<and> ((\<forall>p \<in> set (analysed_frame_queue st). encoded_q60 vis p) \<longrightarrow>
        (\<forall>p \<in> set (analysed_frame_queue (state_of (analyse vis st t0 its))). encoded_q60 vis p))"
  using step_payload [of vis st it]
    loop_encoded_q60 [of "st\<lparr>command_timer := t0\<rparr>" vis its]
  by (simp add: analyse_def)

text \<open>
  An instance: a queue holding one encoded frame, then a pass in ANALYZE mode and a
  pass in BYPASS mode.
\<close>

theorem payloads_encoded_quality_60_witness:
  "analysed_frame_queue (state_of (analyse (sample_vision None (1, 0))
         (init_state\<lparr>analysed_frame_queue := [Str [255, 216]]\<rparr>) 0
         [pass True [640] 1 1, pass False [640] 2 2])) =
       [Str [255, 216], NdArray [255, 216], Str [255, 216]]
   \<and> list_all (encoded_q60 (sample_vision None (1, 0)))
        (analysed_frame_queue (state_of (analyse (sample_vision None (1, 0))
         (init_state\<lparr>analysed_frame_queue := [Str [255, 216]]\<rparr>) 0
         [pass True [640] 1 1, pass False [640] 2 2])))"
  using payloads_encoded_quality_60 [of "sample_vision None (1, 0)"
      "init_state\<lparr>analysed_frame_queue := [Str [255, 216]]\<rparr>" "pass True [640] 1 1" 0
      "[pass True [640] 1 1, pass False [640] 2 2]"]
  by (simp add: run_defs eval_defs encoded_q60_def)

text \<open>
  C9, as the spec has it, fails when the encoder reports a failure or the bytes are
  not an image: in BYPASS mode nothing is then put on the annotated-frame queue, and the
  loop ends, by \<^verbatim>\<open>break\<close> or by the exception of cv2.
\<close>

theorem bypass_forward_counterexample:
  "\<not> is_analysing (pass False [640] 1 1)
   \<and> analyse_step ((sample_vision None (1, 0))\<lparr>imencode := \<lambda>ext img ps. (False, [])\<rparr>)
       init_state (pass False [640] 1 1) =
     Break (init_state\<lparr>current_frame :=
       Some (Decoded \<lparr>height = 480, width = 640, channels = 3, pixel_buf = []\<rparr>)\<rparr>)
   \<and> analysed_frame_queue (init_state\<lparr>current_frame :=
       Some (Decoded \<lparr>height = 480, width = 640, channels = 3, pixel_buf = []\<rparr>)\<rparr>) = []
   \<and> \<not> is_analysing (pass False [] 1 1)
   \<and> analyse_step (sample_vision None (1, 0)) init_state (pass False [] 1 1) =
     Raise CvError (init_state\<lparr>current_frame := None\<rparr>)
   \<and> analysed_frame_queue (init_state\<lparr>current_frame := None\<rparr>) = []"
  by (simp add: run_defs)

text \<open>
  C9, amended. In BYPASS mode a pass puts no command and leaves the timer and the
  marker coordinates as they are; the line extraction and the regression play no part in
  its result. When the bytes decode to a frame and the encoder reports success, the
  encoding of this frame, as decoded, is appended to the annotated-frame queue; when the
  encoder reports a failure the loop ends with the queue unchanged; when the bytes do not
  decode, cv2 raises.
\<close>

theorem bypass_forwards_frame:
  assumes "\<not> is_analysing it"
  shows "commands_queue (state_of (analyse_step vis st it)) = commands_queue st
    \<and> command_timer (state_of (analyse_step vis st it)) = command_timer st
    \<and> right_x1_coord (state_of (analyse_step vis st it)) = right_x1_coord st
    \<and> left_x1_coord (state_of (analyse_step vis st it)) = left_x1_coord st
    \<and> y1_coord (state_of (analyse_step vis st it)) = y1_coord st
    \<and> analyse_step (vis\<lparr>hough_lines_p := h', polyfit := pf'\<rparr>) st it = analyse_step vis st it
    \<and> (imdecode vis (string_data it) = Some f \<and>
        imencode vis ''.jpg'' (Decoded f) [IMWRITE_JPEG_QUALITY, 60] = (True, bs) \<longrightarrow>
          analyse_step vis st it =
            Continue (st\<lparr>current_frame := Some (Decoded f),
              analysed_frame_queue := analysed_frame_queue st @ [Str bs]\<rparr>))
    \<and> (imdecode vis (string_data it) = Some f \<and>
        \<not> fst (imencode vis ''.jpg'' (Decoded f) [IMWRITE_JPEG_QUALITY, 60]) \<longrightarrow>
          analyse_step vis st it = Break (st\<lparr>current_frame := Some (Decoded f)\<rparr>))
    \<and> (imdecode vis (string_data it) = None \<longrightarrow>
          analyse_step vis st it = Raise CvError (st\<lparr>current_frame := None\<rparr>))"
  using bypass_quiet [OF assms, where vis = vis and st = st]
    bypass_no_chain [OF assms, where vis = vis and st = st and h' = h' and pf' = pf']
  by (simp add: bypass_step [OF assms])

text \<open>
  An instance: a frame with a segment in BYPASS mode, after a command was put by an
  earlier pass.
\<close>

theorem bypass_forwards_frame_witness:
  "\<not> is_analysing (pass False [640, 7] 1 1)
   \<and> analyse_step (sample_vision (Some [(400, 101, 410, 141)]) (4, - 1499))
       (init_state\<lparr>commands_queue := [''5/'']\<rparr>) (pass False [640, 7] 1 1) =
     Continue (init_state\<lparr>commands_queue := [''5/''],
       current_frame := Some (Decoded \<lparr>height = 480, width = 640, channels = 3, pixel_buf = [7]\<rparr>),
       analysed_frame_queue := [Str [255, 216]]\<rparr>)"
  using bypass_forwards_frame [where it = "pass False [640, 7] 1 1"
      and vis = "sample_vision (Some [(400, 101, 410, 141)]) (4, - 1499)"
      and st = "init_state\<lparr>commands_queue := [''5/'']\<rparr>"
      and h' = "\<lambda>f. None" and pf' = "\<lambda>xs ys. (1, 0)"
      and f = "\<lparr>height = 480, width = 640, channels = 3, pixel_buf = [7]\<rparr>"
      and bs = "[255, 216]"]
  by (simp add: sample_vision_def pass_def init_state_def)

section \<open>The stored marker coordinates\<close>

text \<open>
  C10, as stated, fails for a narrow frame: for a frame 43 pixels wide without
  segments, the first command of the run is the straight token, since
  \<open>43 div 2 - 20 = 1\<close> is not above the lane centre 1.
\<close>

theorem start_left_counterexample:
  "hough_lines_p (sample_vision None (1, 0))
      \<lparr>height = 480, width = 43, channels = 3, pixel_buf = []\<rparr> = None
   \<and> imdecode (sample_vision None (1, 0)) [43] =
      Some \<lparr>height = 480, width = 43, channels = 3, pixel_buf = []\<rparr>
   \<and> commands_queue (state_of (analyse (sample_vision None (1, 0)) init_state 0
        [pass True [43] 1 1])) = [''1/1/'']"
  by (simp add: run_defs eval_defs)

text \<open>
  C10, amended. Without segments (None or an empty list) \<^verbatim>\<open>__draw_lines\<close>
  leaves the stored coordinates as they are, and the command of the frame is computed
  from them. At the start the lane centre is \<open>(1 + 1) div 2 = 1\<close>; in a run in which
  every frame is without segments and at least 44 pixels wide, the coordinates stay 1 and
  every command put is the left token 4/.
\<close>

theorem start_coordinates_steer_left:
  "(lines = None \<or> lines = Some [] \<longrightarrow>
      draw_lines pf h w lines st = Inr \<lparr>new_state = st, lines_drawn = [], regressions = []\<rparr>)
   \<and> (hough_lines_p vis f = None \<or> hough_lines_p vis f = Some [] \<longrightarrow>
      lane_assist vis f t_check t_reset st =
        Inr (Annotated f [] (Circle (final_x st, y1_coord st) 50),
             if t_check - command_timer st > 300 / 1000
             then st\<lparr>commands_queue := commands_queue st @ [steer_command (width f) (final_x st)],
                     command_timer := t_reset\<rparr>
             else st))
   \<and> final_x init_state = (1 + 1) div 2
   \<and> ((\<forall>it \<in> set its. \<forall>f. imdecode vis (string_data it) = Some f \<longrightarrow>
          (hough_lines_p vis f = None \<or> hough_lines_p vis f = Some []) \<and> 44 \<le> width f) \<longrightarrow>
        right_x1_coord (state_of (analyse vis init_state t_start its)) = 1
        \<and> left_x1_coord (state_of (analyse vis init_state t_start its)) = 1
        \<and> final_x (state_of (analyse vis init_state t_start its)) = 1
        \<and> set (commands_queue (state_of (analyse vis init_state t_start its))) \<subseteq> {''4/''})"
proof (intro conjI impI)
  assume "lines = None \<or> lines = Some []"
  then show "draw_lines pf h w lines st = Inr \<lparr>new_state = st, lines_drawn = [], regressions = []\<rparr>"
    by (rule draw_lines_no_segments)
next
  assume "hough_lines_p vis f = None \<or> hough_lines_p vis f = Some []"
  from lane_assist_Inr [OF draw_lines_no_segments [OF this]]
  show "lane_assist vis f t_check t_reset st =
        Inr (Annotated f [] (Circle (final_x st, y1_coord st) 50),
             if t_check - command_timer st > 300 / 1000
             then st\<lparr>commands_queue := commands_queue st @ [steer_command (width f) (final_x st)],
                     command_timer := t_reset\<rparr>
             else st)"
    by simp
next
  show "final_x init_state = (1 + 1) div 2"
    by (simp add: final_x_def init_state_def)
next
  assume a: "\<forall>it \<in> set its. \<forall>f. imdecode vis (string_data it) = Some f \<longrightarrow>
          (hough_lines_p vis f = None \<or> hough_lines_p vis f = Some []) \<and> 44 \<le> width f"
  have r: "right_x1_coord (state_of (analyse vis init_state t_start its)) = 1
        \<and> left_x1_coord (state_of (analyse vis init_state t_start its)) = 1
        \<and> set (commands_queue (state_of (analyse vis init_state t_start its))) \<subseteq> {''4/''}"
    unfolding analyse_def
    by (rule no_segments_loop [OF a]) (simp_all add: init_state_def)
  then show "right_x1_coord (state_of (analyse vis init_state t_start its)) = 1"
    and "left_x1_coord (state_of (analyse vis init_state t_start its)) = 1"
    and "set (commands_queue (state_of (analyse vis init_state t_start its))) \<subseteq> {''4/''}"
    by simp_all
  from r show "final_x (state_of (analyse vis init_state t_start its)) = 1"
    by (simp add: final_x_def)
qed

text \<open>
  An instance: three frames 640 wide without segments, the second in BYPASS mode.
\<close>

theorem start_coordinates_steer_left_witness:
  "commands_queue (state_of (analyse (sample_vision None (1, 0)) init_state 0
        [pass True [640] 1 1, pass False [640] 2 2, pass True [640] 3 3])) = [''4/'', ''4/'']
   \<and> final_x (state_of (analyse (sample_vision None (1, 0)) init_state 0
        [pass True [640] 1 1, pass False [640] 2 2, pass True [640] 3 3])) = 1
   \<and> hough_lines_p (sample_vision None (1, 0))
        \<lparr>height = 480, width = 640, channels = 3, pixel_buf = []\<rparr> = None
   \<and> imdecode (sample_vision None (1, 0)) [640] =
        Some \<lparr>height = 480, width = 640, channels = 3, pixel_buf = []\<rparr>"
  using start_coordinates_steer_left [where vis = "sample_vision None (1, 0)" and t_start = 0
      and its = "[pass True [640] 1 1, pass False [640] 2 2, pass True [640] 3 3]"]
  by (auto simp add: run_defs eval_defs)

text \<open>
  C4, as the spec has it, fails: the stored coordinates influence the command of a
  frame without segments. The frame of bytes [640] gives the left token as the first
  frame of a run, and the right token after a frame whose only segment, on the right,
  left the coordinates 494 and 479.
\<close>

theorem stored_coordinates_counterexample:
  "commands_queue (state_of (analyse (sample_vision (Some [(400, 101, 410, 141)]) (4, - 1499))
      init_state 0 [pass True [640] 1 1])) = [''4/'']
   \<and> commands_queue (state_of (analyse (sample_vision (Some [(400, 101, 410, 141)]) (4, - 1499))
      init_state 0 [pass True [640, 7] 1 1, pass True [640] 2 2])) = [''5/'', ''5/'']"
  by (simp add: run_defs eval_defs)

text \<open>
  C4, amended. If a frame is processed from state \<open>sa\<close>, then from any state
  \<open>sb\<close> it is processed with the same annotated image, the same lane centre and,
  when both throttles are open, the same command, provided that the frame has a segment
  or else that \<open>sb\<close> stores the coordinates of \<open>sa\<close>. In particular the same
  frame processed again, right after, gives the same image, centre and command. The lines
  drawn and the points given to the regression never depend on the state.
\<close>

theorem same_frame_same_command:
  "(lane_assist vis f ta ra sa = Inr (img, sa') \<longrightarrow>
      ((hough_lines_p vis f = None \<or> hough_lines_p vis f = Some [] \<longrightarrow>
          right_x1_coord sb = right_x1_coord sa \<and> left_x1_coord sb = left_x1_coord sa
          \<and> y1_coord sb = y1_coord sa) \<longrightarrow>
        (\<exists>sb'. lane_assist vis f tb rb sb = Inr (img, sb')
           \<and> final_x sb' = final_x sa'
           \<and> (ta - command_timer sa > 300 / 1000 \<and> tb - command_timer sb > 300 / 1000
                \<longrightarrow> last (commands_queue sb') = last (commands_queue sa'))))
      \<and> (\<exists>s''. lane_assist vis f tb rb sa' = Inr (img, s'')
           \<and> final_x s'' = final_x sa'
           \<and> (ta - command_timer sa > 300 / 1000 \<and> tb - command_timer sa' > 300 / 1000
                \<longrightarrow> last (commands_queue s'') = last (commands_queue sa'))))
   \<and> map_sum id (\<lambda>d. (lines_drawn d, regressions d)) (draw_lines pf h w lines sa) =
       map_sum id (\<lambda>d. (lines_drawn d, regressions d)) (draw_lines pf h w lines sb)"
proof (intro conjI impI)
  assume la: "lane_assist vis f ta ra sa = Inr (img, sa')"
    and same: "hough_lines_p vis f = None \<or> hough_lines_p vis f = Some [] \<longrightarrow>
          right_x1_coord sb = right_x1_coord sa \<and> left_x1_coord sb = left_x1_coord sa
          \<and> y1_coord sb = y1_coord sa"
  from same show "\<exists>sb'. lane_assist vis f tb rb sb = Inr (img, sb')
           \<and> final_x sb' = final_x sa'
           \<and> (ta - command_timer sa > 300 / 1000 \<and> tb - command_timer sb > 300 / 1000
                \<longrightarrow> last (commands_queue sb') = last (commands_queue sa'))"
    by (intro lane_assist_other_state [OF la]) simp
next
  assume la: "lane_assist vis f ta ra sa = Inr (img, sa')"
  have "\<exists>s''. lane_assist vis f tb rb sa' = Inr (img, s'')
           \<and> final_x s'' = final_x sa'
           \<and> (ta - command_timer sa > 300 / 1000 \<and> tb - command_timer sa' > 300 / 1000
                \<longrightarrow> last (commands_queue s'') = last (commands_queue sa'))"
    by (rule lane_assist_other_state [OF la]) (use lane_assist_coords [OF la] in simp)
  then show "\<exists>s''. lane_assist vis f tb rb sa' = Inr (img, s'')
           \<and> final_x s'' = final_x sa'
           \<and> (ta - command_timer sa > 300 / 1000 \<and> tb - command_timer sa' > 300 / 1000
                \<longrightarrow> last (commands_queue s'') = last (commands_queue sa'))" .
next
  show "map_sum id (\<lambda>d. (lines_drawn d, regressions d)) (draw_lines pf h w lines sa) =
       map_sum id (\<lambda>d. (lines_drawn d, regressions d)) (draw_lines pf h w lines sb)"
  proof (cases "draw_lines pf h w lines sa")
    case (Inl e)
    from draw_lines_error_any_state [OF Inl, of sb] Inl show ?thesis by simp
  next
    case (Inr d1)
    show ?thesis
    proof (cases "lines = None \<or> lines = Some []")
      case True
      from draw_lines_no_segments [OF True] show ?thesis by simp
    next
      case False
      from draw_lines_other_state [OF Inr, of sb] False Inr show ?thesis by auto
    qed
  qed
qed

text \<open>
  An instance: a frame with one segment on the right, processed from the initial
  state, from a state with other coordinates, and a second time.
\<close>

theorem same_frame_same_command_witness:
  "lane_assist (sample_vision (Some [(400, 101, 410, 141)]) (4, - 1499))
      \<lparr>height = 480, width = 640, channels = 3, pixel_buf = [7]\<rparr> 1 1 init_state =
     Inr (Annotated \<lparr>height = 480, width = 640, channels = 3, pixel_buf = [7]\<rparr>
            [Line (494, 480) (378, 14)] (Circle (486, 480) 50),
          init_state\<lparr>right_x1_coord := 494, y1_coord := 480, left_x1_coord := 479,
            commands_queue := [''5/''], command_timer := 1\<rparr>)
   \<and> lane_assist (sample_vision (Some [(400, 101, 410, 141)]) (4, - 1499))
      \<lparr>height = 480, width = 640, channels = 3, pixel_buf = [7]\<rparr> 1 1
      (init_state\<lparr>right_x1_coord := 700, left_x1_coord := 700\<rparr>) =
     Inr (Annotated \<lparr>height = 480, width = 640, channels = 3, pixel_buf = [7]\<rparr>
            [Line (494, 480) (378, 14)] (Circle (486, 480) 50),
          init_state\<lparr>right_x1_coord := 494, y1_coord := 480, left_x1_coord := 479,
            commands_queue := [''5/''], command_timer := 1\<rparr>)
   \<and> lane_assist (sample_vision (Some [(400, 101, 410, 141)]) (4, - 1499))
      \<lparr>height = 480, width = 640, channels = 3, pixel_buf = [7]\<rparr> 2 2
      (init_state\<lparr>right_x1_coord := 494, y1_coord := 480, left_x1_coord := 479,
            commands_queue := [''5/''], command_timer := 1\<rparr>) =
     Inr (Annotated \<lparr>height = 480, width = 640, channels = 3, pixel_buf = [7]\<rparr>
            [Line (494, 480) (378, 14)] (Circle (486, 480) 50),
          init_state\<lparr>right_x1_coord := 494, y1_coord := 480, left_x1_coord := 479,
            commands_queue := [''5/'', ''5/''], command_timer := 2\<rparr>)"
  using same_frame_same_command [where vis = "sample_vision (Some [(400, 101, 410, 141)]) (4, - 1499)"
      and f = "\<lparr>height = 480, width = 640, channels = 3, pixel_buf = [7]\<rparr>"
      and ta = 1 and ra = 1 and sa = init_state
      and img = "Annotated \<lparr>height = 480, width = 640, channels = 3, pixel_buf = [7]\<rparr>
            [Line (494, 480) (378, 14)] (Circle (486, 480) 50)"
      and sa' = "init_state\<lparr>right_x1_coord := 494, y1_coord := 480, left_x1_coord := 479,
            commands_queue := [''5/''], command_timer := 1\<rparr>"
      and sb = "init_state\<lparr>right_x1_coord := 700, left_x1_coord := 700\<rparr>"
      and tb = 2 and rb = 2]
  by (simp add: run_defs eval_defs)

end
